theory Spec2Isabelle
  imports Main
begin

section \<open>Data model (backend/app.py)\<close>

text \<open>
  The \<open>Email\<close> model of \<open>app.py\<close>. The primary key \<open>id\<close> is called \<open>email_id\<close>;
  the nullable columns the synchronisation reads (\<open>message_id_header\<close>, \<open>imap_uid\<close>) are
  options; the \<open>embedding\<close> column, never written by the code below, is left out.
\<close>

record email =
  email_id :: nat
  user_id :: nat
  message_id_header :: "string option"
  subject :: string
  sender :: string
  recipient :: string
  body_preview :: string
  body_full :: string
  body_html :: string
  body_text :: string
  folder :: string
  received_date :: nat
  imap_uid :: "int option"
  email_type :: string
  should_preserve_layout :: bool
  should_force_left_align :: bool
  cleaned_html :: "string option"

text \<open>The columns of \<open>User\<close> the mail routes read; \<open>decrypted_password\<close> is the result of
  \<open>get_decrypted_email_password()\<close>.\<close>

record user =
  usr_id :: nat
  usr_email :: string
  decrypted_password :: "string option"
  imap_host :: "string option"
  imap_port :: "int option"

text \<open>What \<open>mailparser.parse_from_bytes\<close> gives for one message, and the dictionary
  \<open>analyze_email_content\<close> returns (the four keys the routes read).\<close>

record parsed_mail =
  p_subject :: "string option"
  p_from :: "(string \<times> string) list"
  p_to :: "(string \<times> string) list"
  p_message_id :: "string option"
  p_date :: "nat option"
  p_text_plain :: "string list"
  p_text_html :: "string list"

record analysis =
  a_email_type :: string
  a_should_preserve_layout :: bool
  a_should_force_left_align :: bool
  a_cleaned_html :: "string option"

subsection \<open>The IMAP connection\<close>

text \<open>
  Every call of \<open>imaplib\<close> the routes make is a command. The server is an oracle: the outcome
  of a command may depend on every command issued before it on the connection, so that any
  pattern of refusals and exceptions is a server. \<open>OK\<close> and \<open>NO\<close> are the returned status,
  \<open>RAISE\<close> is an exception raised by the call.
\<close>

datatype search_key = Search_all | Search_uid_from int

datatype imap_cmd =
    Connect
  | Login
  | ListFolders
  | Select string bool
  | UidSearch search_key
  | UidFetch int
  | UidCopy int string
  | UidStore int
  | Expunge
  | Logout

datatype imap_status = OK | NO | RAISE

text \<open>The data of a fetch: nothing (\<open>not msg_data or msg_data[0] is None\<close>), a first item
  that is no tuple, or raw bytes, with what the parser makes of them (\<open>None\<close>: it raises).\<close>

datatype fetch_data = NoData | NotTuple | Raw "parsed_mail option"

record imap_server =
  status :: "imap_cmd list \<Rightarrow> imap_cmd \<Rightarrow> imap_status"
  uids :: "imap_cmd list \<Rightarrow> int list"
  message :: "imap_cmd list \<Rightarrow> int \<Rightarrow> fetch_data"

text \<open>The collaborators of the routes: the content classifier, the clock, whether the
  database accepts a commit of the given table, and where \<open>ORDER BY ... DESC\<close> puts NULL
  (first on PostgreSQL, last on SQLite).\<close>

record env =
  analyze :: "string \<Rightarrow> string \<Rightarrow> analysis"
  now :: nat
  commit_ok :: "email list \<Rightarrow> bool"
  nulls_first :: bool

subsection \<open>Python helpers\<close>

definition truthy_str :: "string option \<Rightarrow> bool" where
  "truthy_str s = (case s of None \<Rightarrow> False | Some v \<Rightarrow> v \<noteq> [])"

definition truthy_int :: "int option \<Rightarrow> bool" where
  "truthy_int i = (case i of None \<Rightarrow> False | Some v \<Rightarrow> v \<noteq> 0)"

text \<open>\<open>xs[-limit:]\<close>: the last \<open>limit\<close> items for a positive \<open>limit\<close>; \<open>xs[0:]\<close>, the whole
  list, for \<open>limit = 0\<close>; \<open>xs[k:]\<close> for \<open>limit = -k\<close>.\<close>

definition slice_last :: "int \<Rightarrow> 'a list \<Rightarrow> 'a list" where
  "slice_last limit xs =
     (if 0 < limit then drop (length xs - nat limit) xs else drop (nat (- limit)) xs)"

text \<open>\<open>s.strip('<>')\<close>\<close>

definition strip_angle :: "string \<Rightarrow> string" where
  "strip_angle s =
     (let angle = (\<lambda>c. c = CHR ''<'' \<or> c = CHR ''>'')
      in rev (dropWhile angle (rev (dropWhile angle s))))"

fun join_comma :: "string list \<Rightarrow> string" where
  "join_comma [] = []"
| "join_comma [x] = x"
| "join_comma (x # y # ys) = x @ '', '' @ join_comma (y # ys)"

subsection \<open>Queries on the \<open>emails\<close> table\<close>

text \<open>\<open>Email.query.filter_by(user_id=..., imap_uid=...).first()\<close> and the same by
  \<open>message_id_header\<close>, \<open>id\<close>.\<close>

definition by_uid :: "email list \<Rightarrow> nat \<Rightarrow> int \<Rightarrow> email option" where
  "by_uid db u k = find (\<lambda>e. user_id e = u \<and> imap_uid e = Some k) db"

definition by_msg_id :: "email list \<Rightarrow> nat \<Rightarrow> string \<Rightarrow> email option" where
  "by_msg_id db u m = find (\<lambda>e. user_id e = u \<and> message_id_header e = Some m) db"

definition by_id :: "email list \<Rightarrow> nat \<Rightarrow> nat \<Rightarrow> email option" where
  "by_id db u i = find (\<lambda>e. email_id e = i \<and> user_id e = u) db"

text \<open>The key the autoincrement column gives the next row.\<close>

definition next_id :: "email list \<Rightarrow> nat" where
  "next_id db = Suc (fold max (map email_id db) 0)"

section \<open>Message ingestion (the body of both sync loops)\<close>

definition msg_id_of :: "parsed_mail \<Rightarrow> string option" where
  "msg_id_of p = (if truthy_str (p_message_id p) then Some (strip_angle (the (p_message_id p))) else None)"

definition sender_of :: "parsed_mail \<Rightarrow> string" where
  "sender_of p =
     (case p_from p of [] \<Rightarrow> ''Unknown Sender''
      | (n, a) # _ \<Rightarrow> if a \<noteq> [] then a else ''Unknown Sender'')"

definition recipient_of :: "parsed_mail \<Rightarrow> string" where
  "recipient_of p =
     (let recipient_emails = map snd (filter (\<lambda>r. snd r \<noteq> []) (p_to p))
      in if recipient_emails \<noteq> [] then join_comma recipient_emails else ''Unknown Recipient'')"

definition first_part :: "string list \<Rightarrow> string" where
  "first_part ps = (case ps of [] \<Rightarrow> [] | x # _ \<Rightarrow> x)"

text \<open>The row \<open>Email(...)\<close> built from a parsed message; \<open>i\<close> is the key the database
  assigns at the commit.\<close>

definition new_email :: "env \<Rightarrow> nat \<Rightarrow> nat \<Rightarrow> string \<Rightarrow> int \<Rightarrow> parsed_mail \<Rightarrow> email" where
  "new_email ev i u fld k p =
     (let text = first_part (p_text_plain p);
          html = first_part (p_text_html p);
          full = (if text \<noteq> [] then text else html);
          an = analyze ev html text
      in \<lparr> email_id = i,
           user_id = u,
           message_id_header = msg_id_of p,
           subject = (case p_subject p of None \<Rightarrow> ''[No Subject]'' | Some s \<Rightarrow> s),
           sender = sender_of p,
           recipient = recipient_of p,
           body_preview = (if full = [] then ''Could not load email content.'' else take 300 full),
           body_full = (if full = [] then ''Could not load email content.'' else full),
           body_html = html,
           body_text = text,
           folder = fld,
           received_date = (case p_date p of None \<Rightarrow> now ev | Some d \<Rightarrow> d),
           imap_uid = Some k,
           email_type = a_email_type an,
           should_preserve_layout = a_should_preserve_layout an,
           should_force_left_align = a_should_force_left_align an,
           cleaned_html = a_cleaned_html an \<rparr>)"

text \<open>
  One pass of the loop body from the fetch on, shared in shape by \<open>sync_emails\<close> and
  \<open>sync_new_emails\<close>: fetch the message, parse it, look for the Message-ID in any folder,
  insert and commit. \<open>Skipped\<close> is a \<open>continue\<close>, \<open>Fell\<close> the end of the body reached
  without an insert (the fetched item was no tuple), \<open>Stored\<close> a committed insert, \<open>Raised\<close>
  an exception that leaves the loop.
\<close>

datatype step = Skipped | Fell | Stored email | Raised

definition ingest :: "env \<Rightarrow> imap_server \<Rightarrow> nat \<Rightarrow> string \<Rightarrow> email list \<Rightarrow> imap_cmd list \<Rightarrow> int \<Rightarrow> step" where
  "ingest ev srv u fld db log k =
     (case status srv log (UidFetch k) of
        RAISE \<Rightarrow> Raised
      | NO \<Rightarrow> Skipped
      | OK \<Rightarrow>
          (case message srv log k of
             NoData \<Rightarrow> Skipped
           | NotTuple \<Rightarrow> Fell
           | Raw None \<Rightarrow> Skipped
           | Raw (Some p) \<Rightarrow>
               (case msg_id_of p of
                  Some m \<Rightarrow>
                    if m \<noteq> [] \<and> by_msg_id db u m \<noteq> None then Skipped
                    else (let e = new_email ev (next_id db) u fld k p
                          in if commit_ok ev (db @ [e]) then Stored e else Skipped)
                | None \<Rightarrow>
                    (let e = new_email ev (next_id db) u fld k p
                     in if commit_ok ev (db @ [e]) then Stored e else Skipped))))"

section \<open>Full sync: \<open>sync_emails\<close>\<close>

text \<open>The state of the loop: the table, the commands issued, \<open>new_emails_count\<close> and
  \<open>fetched_count\<close>. The loop returns whether an exception left it.\<close>

type_synonym loop_state = "email list \<times> imap_cmd list \<times> nat \<times> int"

fun sync_loop :: "env \<Rightarrow> imap_server \<Rightarrow> nat \<Rightarrow> string \<Rightarrow> int \<Rightarrow> int list \<Rightarrow> loop_state \<Rightarrow> bool \<times> loop_state" where
  "sync_loop ev srv u fld limit [] s = (False, s)"
| "sync_loop ev srv u fld limit (k # ks) (db, log, cnt, fetched) =
     (if by_uid db u k \<noteq> None then sync_loop ev srv u fld limit ks (db, log, cnt, fetched)
      else
        (case ingest ev srv u fld db log k of
           Raised \<Rightarrow> (True, (db, log @ [UidFetch k], cnt, fetched))
         | Skipped \<Rightarrow> sync_loop ev srv u fld limit ks (db, log @ [UidFetch k], cnt, fetched)
         | Fell \<Rightarrow>
             (if fetched + 1 \<ge> limit then (False, (db, log @ [UidFetch k], cnt, fetched + 1))
              else sync_loop ev srv u fld limit ks (db, log @ [UidFetch k], cnt, fetched + 1))
         | Stored e \<Rightarrow>
             (if fetched + 1 \<ge> limit then (False, (db @ [e], log @ [UidFetch k], Suc cnt, fetched + 1))
              else sync_loop ev srv u fld limit ks (db @ [e], log @ [UidFetch k], Suc cnt, fetched + 1))))"

definition folder_mapping_sync :: "string \<Rightarrow> string" where
  "folder_mapping_sync fld =
     (if fld = ''inbox'' then ''INBOX''
      else if fld = ''sent'' then ''Sent''
      else if fld = ''drafts'' then ''Drafts''
      else if fld = ''trash'' then ''Trash''
      else if fld = ''spam'' then ''Spam''
      else ''INBOX'')"

definition possible_sent_folders_sync :: "string list" where
  "possible_sent_folders_sync =
     [''[Gmail]/Sent Mail'', ''Sent'', ''Sent Items'', ''INBOX.Sent'', ''[Gmail]/Sent'', ''Sent Messages'']"

text \<open>\<open>for name in candidates: try: status, _ = mail.select(name, readonly); if status ==
  'OK': found; break; except: continue\<close>: the first candidate the server accepts.\<close>

fun probe :: "imap_server \<Rightarrow> bool \<Rightarrow> string list \<Rightarrow> imap_cmd list \<Rightarrow> string option \<times> imap_cmd list" where
  "probe srv ro [] log = (None, log)"
| "probe srv ro (c # cs) log =
     (if status srv log (Select c ro) = OK then (Some c, log @ [Select c ro])
      else probe srv ro cs (log @ [Select c ro]))"

text \<open>The selection of a folder other than \<open>sent\<close>: on a refusal the \<open>INBOX\<close> is selected
  inside the \<open>try\<close>, and once more by the handler if that raises. \<open>None\<close>: the handler's
  own select raised.\<close>

definition select_or_inbox :: "imap_server \<Rightarrow> bool \<Rightarrow> string \<Rightarrow> imap_cmd list \<Rightarrow> bool \<times> imap_cmd list" where
  "select_or_inbox srv ro f log =
     (let log1 = log @ [Select f ro]
      in case status srv log (Select f ro) of
           OK \<Rightarrow> (True, log1)
         | NO \<Rightarrow>
             (let log2 = log1 @ [Select ''INBOX'' ro]
              in if status srv log1 (Select ''INBOX'' ro) \<noteq> RAISE then (True, log2)
                 else (status srv log2 (Select ''INBOX'' ro) \<noteq> RAISE, log2 @ [Select ''INBOX'' ro]))
         | RAISE \<Rightarrow> (status srv log1 (Select ''INBOX'' ro) \<noteq> RAISE, log1 @ [Select ''INBOX'' ro]))"

text \<open>\<open>imaplib.IMAP4_SSL(host, port)\<close> and \<open>mail.login(...)\<close>: \<open>False\<close> when one raises.\<close>

definition open_session :: "imap_server \<Rightarrow> bool \<times> imap_cmd list" where
  "open_session srv =
     (if status srv [] Connect = RAISE then (False, [Connect])
      else if status srv [Connect] Login = RAISE then (False, [Connect, Login])
      else (True, [Connect, Login]))"

datatype sync_result =
    Synced nat
  | Found "email list"
  | Warning_no_sent_folder
  | Error_password
  | Error_imap_config
  | Error_search
  | Error_exception

definition imap_configured :: "user \<Rightarrow> bool" where
  "imap_configured usr = (truthy_str (imap_host usr) \<and> truthy_int (imap_port usr))"

text \<open>From the search on; \<open>log\<close> holds the commands up to the selection of the folder.\<close>

definition sync_search :: "env \<Rightarrow> imap_server \<Rightarrow> email list \<Rightarrow> nat \<Rightarrow> string \<Rightarrow> int \<Rightarrow> imap_cmd list \<Rightarrow> sync_result \<times> email list \<times> imap_cmd list" where
  "sync_search ev srv db u fld limit log =
     (let log1 = log @ [UidSearch Search_all]
      in case status srv log (UidSearch Search_all) of
           RAISE \<Rightarrow> (Error_exception, db, log1)
         | NO \<Rightarrow>
             (if status srv log1 Logout = RAISE then (Error_exception, db, log1 @ [Logout])
              else (Error_search, db, log1 @ [Logout]))
         | OK \<Rightarrow>
             (case sync_loop ev srv u fld limit (rev (slice_last limit (uids srv log))) (db, log1, 0, 0) of
                (True, (db', log', cnt, fetched)) \<Rightarrow> (Error_exception, db', log')
              | (False, (db', log', cnt, fetched)) \<Rightarrow>
                  (if status srv log' Logout = RAISE then (Error_exception, db', log' @ [Logout])
                   else (Synced cnt, db', log' @ [Logout]))))"

definition sync_emails :: "env \<Rightarrow> imap_server \<Rightarrow> email list \<Rightarrow> user \<Rightarrow> string \<Rightarrow> int \<Rightarrow> sync_result \<times> email list \<times> imap_cmd list" where
  "sync_emails ev srv db usr fld limit =
     (if \<not> truthy_str (decrypted_password usr) then (Error_password, db, [])
      else if \<not> imap_configured usr then (Error_imap_config, db, [])
      else
        (case open_session srv of
           (False, log) \<Rightarrow> (Error_exception, db, log)
         | (True, log) \<Rightarrow>
             (if fld = ''sent'' then
                (let log1 = log @ [ListFolders]
                 in case probe srv True possible_sent_folders_sync log1 of
                      (Some f, log2) \<Rightarrow> sync_search ev srv db (usr_id usr) fld limit log2
                    | (None, log2) \<Rightarrow>
                        (let log3 = log2 @ [Select ''INBOX'' True]
                         in if status srv log2 (Select ''INBOX'' True) = RAISE then (Error_exception, db, log3)
                            else if status srv log3 Logout = RAISE then (Error_exception, db, log3 @ [Logout])
                            else (Warning_no_sent_folder, db, log3 @ [Logout])))
              else
                (case select_or_inbox srv True (folder_mapping_sync fld) log of
                   (False, log1) \<Rightarrow> (Error_exception, db, log1)
                 | (True, log1) \<Rightarrow> sync_search ev srv db (usr_id usr) fld limit log1))))"

section \<open>Incremental sync: \<open>sync_new_emails\<close>\<close>

definition folder_rows :: "email list \<Rightarrow> nat \<Rightarrow> string \<Rightarrow> email list" where
  "folder_rows db u fld = filter (\<lambda>e. user_id e = u \<and> folder e = fld) db"

text \<open>
  \<open>latest_email = Email.query.filter_by(user_id, folder).order_by(Email.imap_uid.desc()).first()\<close>
  and \<open>last_uid = latest_email.imap_uid if latest_email else 0\<close>. The result \<open>None\<close> is the
  Python value \<open>None\<close>: the row that sorts first has no UID.
\<close>

definition last_uid :: "env \<Rightarrow> email list \<Rightarrow> nat \<Rightarrow> string \<Rightarrow> int option" where
  "last_uid ev db u fld =
     (let ks = map imap_uid (folder_rows db u fld)
      in if ks = [] then Some 0
         else if nulls_first ev \<and> None \<in> set ks then None
         else (case map the (filter (\<lambda>k. k \<noteq> None) ks) of
                 [] \<Rightarrow> None
               | k # ks' \<Rightarrow> Some (fold max ks' k)))"

type_synonym new_state = "email list \<times> imap_cmd list \<times> email list"

fun sync_new_loop :: "env \<Rightarrow> imap_server \<Rightarrow> nat \<Rightarrow> string \<Rightarrow> int \<Rightarrow> int list \<Rightarrow> new_state \<Rightarrow> bool \<times> new_state" where
  "sync_new_loop ev srv u fld cur [] s = (False, s)"
| "sync_new_loop ev srv u fld cur (k # ks) (db, log, new) =
     (if k \<le> cur then sync_new_loop ev srv u fld cur ks (db, log, new)
      else if by_uid db u k \<noteq> None then sync_new_loop ev srv u fld cur ks (db, log, new)
      else
        (case ingest ev srv u fld db log k of
           Raised \<Rightarrow> (True, (db, log @ [UidFetch k], new))
         | Skipped \<Rightarrow> sync_new_loop ev srv u fld cur ks (db, log @ [UidFetch k], new)
         | Fell \<Rightarrow> sync_new_loop ev srv u fld cur ks (db, log @ [UidFetch k], new)
         | Stored e \<Rightarrow> sync_new_loop ev srv u fld cur ks (db @ [e], log @ [UidFetch k], new @ [e])))"

definition search_query :: "int \<Rightarrow> search_key" where
  "search_query cur = (if cur > 0 then Search_uid_from (cur + 1) else Search_all)"

definition sync_new_search :: "env \<Rightarrow> imap_server \<Rightarrow> email list \<Rightarrow> nat \<Rightarrow> string \<Rightarrow> int option \<Rightarrow> imap_cmd list \<Rightarrow> sync_result \<times> email list \<times> imap_cmd list" where
  "sync_new_search ev srv db u fld cursor_opt log =
     (case cursor_opt of
        None \<Rightarrow> (Error_exception, db, log)
      | Some cur \<Rightarrow>
          (let q = UidSearch (search_query cur); log1 = log @ [q]
           in case status srv log q of
                RAISE \<Rightarrow> (Error_exception, db, log1)
              | NO \<Rightarrow>
                  (if status srv log1 Logout = RAISE then (Error_exception, db, log1 @ [Logout])
                   else (Error_search, db, log1 @ [Logout]))
              | OK \<Rightarrow>
                  (case sync_new_loop ev srv u fld cur (rev (slice_last 20 (uids srv log))) (db, log1, []) of
                     (True, (db', log', new)) \<Rightarrow> (Error_exception, db', log')
                   | (False, (db', log', new)) \<Rightarrow>
                       (if status srv log' Logout = RAISE then (Error_exception, db', log' @ [Logout])
                        else (Found new, db', log' @ [Logout])))))"

definition sync_new_emails :: "env \<Rightarrow> imap_server \<Rightarrow> email list \<Rightarrow> user \<Rightarrow> string \<Rightarrow> sync_result \<times> email list \<times> imap_cmd list" where
  "sync_new_emails ev srv db usr fld =
     (if \<not> truthy_str (decrypted_password usr) then (Error_password, db, [])
      else if \<not> imap_configured usr then (Error_imap_config, db, [])
      else
        (let cursor_opt = last_uid ev db (usr_id usr) fld
         in case open_session srv of
              (False, log) \<Rightarrow> (Error_exception, db, log)
            | (True, log) \<Rightarrow>
                (if fld = ''sent'' then
                   (case probe srv True possible_sent_folders_sync log of
                      (Some f, log1) \<Rightarrow> sync_new_search ev srv db (usr_id usr) fld cursor_opt log1
                    | (None, log1) \<Rightarrow>
                        (if status srv log1 Logout = RAISE then (Error_exception, db, log1 @ [Logout])
                         else (Warning_no_sent_folder, db, log1 @ [Logout])))
                 else
                   (case select_or_inbox srv True (folder_mapping_sync fld) log of
                      (False, log1) \<Rightarrow> (Error_exception, db, log1)
                    | (True, log1) \<Rightarrow> sync_new_search ev srv db (usr_id usr) fld cursor_opt log1))))"

section \<open>Mutations: \<open>delete_email\<close>, \<open>restore_email\<close>, \<open>archive_email\<close>\<close>

datatype mut_status =
    Success
  | Warning
  | Error_not_found
  | Error_not_in_trash
  | Error_bad_request
  | Error_failed

text \<open>What the session holds for the row when it is committed: nothing, \<open>email.folder = f\<close>,
  or \<open>db.session.delete(email)\<close>.\<close>

datatype local_change = Unchanged | To_folder string | Removed

definition delete_row :: "nat \<Rightarrow> email list \<Rightarrow> email list" where
  "delete_row i db = filter (\<lambda>e. email_id e \<noteq> i) db"

definition set_folder :: "nat \<Rightarrow> string \<Rightarrow> email list \<Rightarrow> email list" where
  "set_folder i f db = map (\<lambda>e. if email_id e = i then e\<lparr>folder := f\<rparr> else e) db"

definition apply_local :: "nat \<Rightarrow> local_change \<Rightarrow> email list \<Rightarrow> email list" where
  "apply_local i c db = (case c of Unchanged \<Rightarrow> db | To_folder f \<Rightarrow> set_folder i f db | Removed \<Rightarrow> delete_row i db)"

text \<open>\<open>db.session.commit()\<close> at the end of a route: an exception there reaches the route's
  outermost handler, which answers 500.\<close>

definition commit :: "env \<Rightarrow> email list \<Rightarrow> email list \<Rightarrow> mut_status \<Rightarrow> imap_cmd list \<Rightarrow> mut_status \<times> email list \<times> imap_cmd list" where
  "commit ev db db' st log = (if commit_ok ev db' then (st, db', log) else (Error_failed, db, log))"

text \<open>A run of calls whose returned status the code does not look at: it stops at the first
  one that raises.\<close>

fun run_cmds :: "imap_server \<Rightarrow> imap_cmd list \<Rightarrow> imap_cmd list \<Rightarrow> bool \<times> imap_cmd list" where
  "run_cmds srv [] log = (True, log)"
| "run_cmds srv (c # cs) log =
     (if status srv log c = RAISE then (False, log @ [c]) else run_cmds srv cs (log @ [c]))"

definition folder_mapping_mut :: "string \<Rightarrow> string" where
  "folder_mapping_mut fld =
     (if fld = ''inbox'' then ''INBOX''
      else if fld = ''sent'' then ''[Gmail]/Sent Mail''
      else if fld = ''drafts'' then ''Drafts''
      else if fld = ''trash'' then ''Trash''
      else if fld = ''spam'' then ''Spam''
      else ''INBOX'')"

definition possible_sent_folders_mut :: "string list" where
  "possible_sent_folders_mut = [''[Gmail]/Sent Mail'', ''Sent'', ''Sent Items'', ''INBOX.Sent'']"

definition trash_folders :: "string list" where
  "trash_folders = [''[Gmail]/Trash'', ''Trash'', ''Deleted Items'', ''INBOX.Trash'']"

definition archive_folders :: "string list" where
  "archive_folders = [''[Gmail]/All Mail'', ''Archive'', ''INBOX.Archive'', ''Archived'']"

text \<open>The selection of the message's current folder in \<open>delete_email\<close> and
  \<open>archive_email\<close>: the folder that ends up in \<open>current_imap_folder\<close>, and \<open>False\<close> when an
  exception leaves the block.\<close>

definition select_current :: "imap_server \<Rightarrow> string \<Rightarrow> imap_cmd list \<Rightarrow> bool \<times> string \<times> imap_cmd list" where
  "select_current srv f log =
     (let log1 = log @ [Select f False]
      in case status srv log (Select f False) of
           OK \<Rightarrow> (True, f, log1)
         | NO \<Rightarrow>
             (let log2 = log1 @ [Select ''INBOX'' False]
              in if status srv log1 (Select ''INBOX'' False) \<noteq> RAISE then (True, ''INBOX'', log2)
                 else (status srv log2 (Select ''INBOX'' False) \<noteq> RAISE, ''INBOX'', log2 @ [Select ''INBOX'' False]))
         | RAISE \<Rightarrow> (status srv log1 (Select ''INBOX'' False) \<noteq> RAISE, ''INBOX'', log1 @ [Select ''INBOX'' False]))"

definition locate_folder :: "imap_server \<Rightarrow> email \<Rightarrow> imap_cmd list \<Rightarrow> bool \<times> string \<times> imap_cmd list" where
  "locate_folder srv e log =
     (if folder e = ''sent'' then
        (case probe srv False possible_sent_folders_mut log of
           (Some f, log1) \<Rightarrow> (True, f, log1)
         | (None, log1) \<Rightarrow> (True, folder_mapping_mut (folder e), log1))
      else select_current srv (folder_mapping_mut (folder e)) log)"

definition imap_available :: "user \<Rightarrow> bool" where
  "imap_available usr = (truthy_str (decrypted_password usr) \<and> imap_configured usr)"

definition local_delete :: "bool \<Rightarrow> string \<Rightarrow> local_change" where
  "local_delete permanent fld = (if permanent \<or> fld = ''trash'' then Removed else To_folder ''trash'')"

text \<open>The end of the \<open>try\<close> block of \<open>delete_email\<close>: \<open>mail.logout()\<close>. The result is
  (an exception left the block, \<open>imap_success\<close>, the change in the session, the commands).\<close>

definition logout_after :: "imap_server \<Rightarrow> bool \<Rightarrow> local_change \<Rightarrow> imap_cmd list \<Rightarrow> bool \<times> bool \<times> local_change \<times> imap_cmd list" where
  "logout_after srv ok c log = (status srv log Logout = RAISE, ok, c, log @ [Logout])"

definition delete_remote :: "imap_server \<Rightarrow> email \<Rightarrow> bool \<Rightarrow> bool \<times> bool \<times> local_change \<times> imap_cmd list" where
  "delete_remote srv e permanent =
     (case open_session srv of
        (False, log) \<Rightarrow> (True, False, Unchanged, log)
      | (True, log) \<Rightarrow>
          (case locate_folder srv e log of
             (False, cur, log1) \<Rightarrow> (True, False, Unchanged, log1)
           | (True, cur, log1) \<Rightarrow>
               (if truthy_int (imap_uid e) then
                  (let k = the (imap_uid e)
                   in if permanent \<or> folder e = ''trash'' then
                        (case run_cmds srv [UidStore k, Expunge] log1 of
                           (False, log2) \<Rightarrow> (True, False, Unchanged, log2)
                         | (True, log2) \<Rightarrow> logout_after srv True Removed log2)
                      else
                        (case probe srv False trash_folders log1 of
                           (Some t, log2) \<Rightarrow>
                             (if status srv log2 (Select cur False) = RAISE
                              then (True, False, Unchanged, log2 @ [Select cur False])
                              else
                                (case run_cmds srv [UidCopy k t, UidStore k, Expunge] (log2 @ [Select cur False]) of
                                   (True, log3) \<Rightarrow> logout_after srv True (To_folder ''trash'') log3
                                 | (False, log3) \<Rightarrow>
                                     (if status srv log3 (UidStore k) = RAISE
                                      then (True, False, Unchanged, log3 @ [UidStore k])
                                      else logout_after srv True (To_folder ''trash'') (log3 @ [UidStore k]))))
                         | (None, log2) \<Rightarrow>
                             (if status srv log2 (UidStore k) = RAISE
                              then (True, False, Unchanged, log2 @ [UidStore k])
                              else logout_after srv True (To_folder ''trash'') (log2 @ [UidStore k]))))
                else logout_after srv False (local_delete permanent (folder e)) log1)))"

text \<open>\<open>delete_email\<close>. The handler of the IMAP block decides on \<open>email.folder\<close> as the
  session has it then, which is \<open>trash\<close> once the block has moved the message.\<close>

definition delete_email :: "env \<Rightarrow> imap_server \<Rightarrow> email list \<Rightarrow> user \<Rightarrow> nat \<Rightarrow> bool \<Rightarrow> mut_status \<times> email list \<times> imap_cmd list" where
  "delete_email ev srv db usr i permanent =
     (case by_id db (usr_id usr) i of
        None \<Rightarrow> (Error_not_found, db, [])
      | Some e \<Rightarrow>
          (if \<not> imap_available usr
           then commit ev db (apply_local i (local_delete permanent (folder e)) db) Success []
           else
             (case delete_remote srv e permanent of
                (raised, ok, c, log) \<Rightarrow>
                  (let folder_now = (case c of To_folder f \<Rightarrow> f | _ \<Rightarrow> folder e);
                       c' = (if raised then local_delete permanent folder_now else c)
                   in commit ev db (apply_local i c' db) (if ok then Success else Warning) log))))"

text \<open>The IMAP block of \<open>restore_email\<close>: \<open>imap_success\<close> and the commands.\<close>

definition restore_remote :: "imap_server \<Rightarrow> email \<Rightarrow> bool \<times> imap_cmd list" where
  "restore_remote srv e =
     (case open_session srv of
        (False, log) \<Rightarrow> (False, log)
      | (True, log) \<Rightarrow>
          (case probe srv False trash_folders log of
             (found, log1) \<Rightarrow>
               (let t = (case found of None \<Rightarrow> ''INBOX'' | Some f \<Rightarrow> f);
                    log2 = log1 @ [Select t False]
                in if status srv log1 (Select t False) = RAISE then (False, log2)
                   else if truthy_int (imap_uid e) then
                     (case run_cmds srv [UidCopy (the (imap_uid e)) ''INBOX'', UidStore (the (imap_uid e)), Expunge] log2 of
                        (ok, log3) \<Rightarrow> (ok, log3 @ [Logout]))
                   else (False, log2 @ [Logout]))))"

definition restore_email :: "env \<Rightarrow> imap_server \<Rightarrow> email list \<Rightarrow> user \<Rightarrow> nat \<Rightarrow> mut_status \<times> email list \<times> imap_cmd list" where
  "restore_email ev srv db usr i =
     (case by_id db (usr_id usr) i of
        None \<Rightarrow> (Error_not_found, db, [])
      | Some e \<Rightarrow>
          (if folder e \<noteq> ''trash'' then (Error_not_in_trash, db, [])
           else if \<not> imap_available usr
           then commit ev db (set_folder i ''inbox'' db) Success []
           else
             (case restore_remote srv e of
                (ok, log) \<Rightarrow> commit ev db (set_folder i ''inbox'' db) (if ok then Success else Warning) log)))"

text \<open>\<open>'gmail' in user.imap_host.lower()\<close>\<close>

definition lower_char :: "char \<Rightarrow> char" where
  "lower_char c = (let n = (of_char c :: nat) in if 65 \<le> n \<and> n \<le> 90 then char_of (n + 32) else c)"

fun contains :: "string \<Rightarrow> string \<Rightarrow> bool" where
  "contains p [] = (p = [])"
| "contains p (c # cs) = (take (length p) (c # cs) = p \<or> contains p cs)"

definition is_gmail :: "user \<Rightarrow> bool" where
  "is_gmail usr = (case imap_host usr of None \<Rightarrow> False | Some h \<Rightarrow> contains ''gmail'' (map lower_char h))"

definition archive_remote :: "imap_server \<Rightarrow> user \<Rightarrow> email \<Rightarrow> bool \<times> imap_cmd list" where
  "archive_remote srv usr e =
     (case open_session srv of
        (False, log) \<Rightarrow> (False, log)
      | (True, log) \<Rightarrow>
          (case locate_folder srv e log of
             (False, cur, log1) \<Rightarrow> (False, log1)
           | (True, cur, log1) \<Rightarrow>
               (if truthy_int (imap_uid e) then
                  (let k = the (imap_uid e)
                   in case probe srv False archive_folders log1 of
                        (Some a, log2) \<Rightarrow>
                          (if status srv log2 (Select cur False) = RAISE then (False, log2 @ [Select cur False])
                           else
                             (case run_cmds srv [UidCopy k a, UidStore k, Expunge] (log2 @ [Select cur False]) of
                                (ok, log3) \<Rightarrow> (ok, log3 @ [Logout])))
                      | (None, log2) \<Rightarrow>
                          (if is_gmail usr then
                             (case run_cmds srv [Select ''INBOX'' False, UidStore k, Expunge] log2 of
                                (ok, log3) \<Rightarrow> (ok, log3 @ [Logout]))
                           else (False, log2 @ [Logout])))
                else (False, log1 @ [Logout]))))"

definition archive_email :: "env \<Rightarrow> imap_server \<Rightarrow> email list \<Rightarrow> user \<Rightarrow> nat \<Rightarrow> mut_status \<times> email list \<times> imap_cmd list" where
  "archive_email ev srv db usr i =
     (case by_id db (usr_id usr) i of
        None \<Rightarrow> (Error_not_found, db, [])
      | Some e \<Rightarrow>
          (if \<not> imap_available usr
           then commit ev db (set_folder i ''archive'' db) Success []
           else
             (case archive_remote srv usr e of
                (ok, log) \<Rightarrow> commit ev db (set_folder i ''archive'' db) (if ok then Success else Warning) log)))"

section \<open>Bulk actions: \<open>bulk_email_action\<close>\<close>

datatype bulk_op = Op_delete | Op_archive | Op_restore

text \<open>An entry of \<open>imap_operations\<close>: \<open>(operation, uid, source_folder)\<close>.\<close>

type_synonym imap_operation = "bulk_op \<times> int \<times> string"

text \<open>The first loop, over the selected rows: the local change of each one, the operation
  queued for the server, and \<open>updated_count\<close>. For \<open>delete\<close> the tuple is built after
  \<open>email.folder = 'trash'\<close>, from the row as it then is.\<close>

fun bulk_local :: "string \<Rightarrow> bool \<Rightarrow> email list \<Rightarrow> email list \<times> imap_operation list \<times> nat \<Rightarrow> email list \<times> imap_operation list \<times> nat" where
  "bulk_local action av [] s = s"
| "bulk_local action av (e # es) (db, ops, n) =
     (if action = ''delete'' then
        (if folder e = ''trash'' then bulk_local action av es (delete_row (email_id e) db, ops, Suc n)
         else
           (let e' = e\<lparr>folder := ''trash''\<rparr>
            in bulk_local action av es
                 (set_folder (email_id e) ''trash'' db,
                  (if av \<and> truthy_int (imap_uid e') then ops @ [(Op_delete, the (imap_uid e'), folder e')] else ops),
                  Suc n)))
      else if action = ''archive'' then
        (let old_folder = folder e
         in bulk_local action av es
              (set_folder (email_id e) ''archive'' db,
               (if av \<and> truthy_int (imap_uid e) then ops @ [(Op_archive, the (imap_uid e), old_folder)] else ops),
               Suc n))
      else if action = ''restore'' then
        (if folder e = ''trash'' then
           (let old_folder = folder e
            in bulk_local action av es
                 (set_folder (email_id e) ''inbox'' db,
                  (if av \<and> truthy_int (imap_uid e) then ops @ [(Op_restore, the (imap_uid e), old_folder)] else ops),
                  Suc n))
         else bulk_local action av es (db, ops, n))
      else bulk_local action av es (db, ops, n))"

definition bulk_trash_folders :: "string list" where
  "bulk_trash_folders = [''[Gmail]/Trash'', ''Trash'', ''Deleted Items'']"

definition bulk_archive_folders :: "string list" where
  "bulk_archive_folders = [''[Gmail]/All Mail'', ''Archive'', ''INBOX.Archive'']"

text \<open>\<open>for target in candidates: try: select(target); select(source); copy; store; expunge;
  break; except: continue\<close>\<close>

fun move_via :: "imap_server \<Rightarrow> string \<Rightarrow> int \<Rightarrow> string list \<Rightarrow> imap_cmd list \<Rightarrow> bool \<times> imap_cmd list" where
  "move_via srv src k [] log = (False, log)"
| "move_via srv src k (t # ts) log =
     (case run_cmds srv [Select t False, Select src False, UidCopy k t, UidStore k, Expunge] log of
        (True, log1) \<Rightarrow> (True, log1)
      | (False, log1) \<Rightarrow> move_via srv src k ts log1)"

text \<open>One queued operation: whether it is counted in \<open>imap_success_count\<close>, and the
  commands.\<close>

definition bulk_step :: "imap_server \<Rightarrow> bool \<Rightarrow> imap_operation \<Rightarrow> imap_cmd list \<Rightarrow> bool \<times> imap_cmd list" where
  "bulk_step srv gmail op log =
     (case op of (operation, k, source_folder) \<Rightarrow>
        (let imap_folder = folder_mapping_mut source_folder;
             log1 = log @ [Select imap_folder False]
         in if status srv log (Select imap_folder False) = RAISE then (False, log1)
            else
              (case operation of
                 Op_delete \<Rightarrow>
                   (if source_folder = ''trash'' then run_cmds srv [UidStore k, Expunge] log1
                    else
                      (case move_via srv imap_folder k bulk_trash_folders log1 of
                         (True, log2) \<Rightarrow> (True, log2)
                       | (False, log2) \<Rightarrow> run_cmds srv [UidStore k] log2))
               | Op_archive \<Rightarrow>
                   (case move_via srv imap_folder k bulk_archive_folders log1 of
                      (True, log2) \<Rightarrow> (True, log2)
                    | (False, log2) \<Rightarrow>
                        (if gmail then run_cmds srv [Select ''INBOX'' False, UidStore k, Expunge] log2
                         else (True, log2)))
               | Op_restore \<Rightarrow> run_cmds srv [UidCopy k ''INBOX'', UidStore k, Expunge] log1)))"

fun bulk_remote :: "imap_server \<Rightarrow> bool \<Rightarrow> imap_operation list \<Rightarrow> imap_cmd list \<times> nat \<Rightarrow> imap_cmd list \<times> nat" where
  "bulk_remote srv gmail [] s = s"
| "bulk_remote srv gmail (op # ops) (log, n) =
     (case bulk_step srv gmail op log of
        (True, log1) \<Rightarrow> bulk_remote srv gmail ops (log1, Suc n)
      | (False, log1) \<Rightarrow> bulk_remote srv gmail ops (log1, n))"

text \<open>The answer of the route: the status, \<open>local_success\<close>, \<open>imap_success\<close>, the table and
  the commands.\<close>

definition bulk_email_action :: "env \<Rightarrow> imap_server \<Rightarrow> email list \<Rightarrow> user \<Rightarrow> nat list \<Rightarrow> string \<Rightarrow> mut_status \<times> nat \<times> nat \<times> email list \<times> imap_cmd list" where
  "bulk_email_action ev srv db usr email_ids action =
     (if email_ids = [] \<or> action = [] then (Error_bad_request, 0, 0, db, [])
      else
        (let emails = filter (\<lambda>e. email_id e \<in> set email_ids \<and> user_id e = usr_id usr) db
         in if emails = [] then (Error_not_found, 0, 0, db, [])
            else
              (case bulk_local action (imap_available usr) emails (db, [], 0) of
                 (db', ops, updated_count) \<Rightarrow>
                   (let (log, imap_success_count) =
                          (if imap_available usr \<and> ops \<noteq> [] then
                             (case open_session srv of
                                (False, log0) \<Rightarrow> (log0, 0)
                              | (True, log0) \<Rightarrow>
                                  (case bulk_remote srv (is_gmail usr) ops (log0, 0) of
                                     (log1, n) \<Rightarrow> (log1 @ [Logout], n)))
                           else ([], 0))
                    in if \<not> commit_ok ev db' then (Error_failed, 0, 0, db, log)
                       else if imap_available usr \<and> ops \<noteq> [] then
                         ((if imap_success_count = length ops then Success else Warning),
                          updated_count, imap_success_count, db', log)
                       else (Success, updated_count, 0, db', log)))))"

section \<open>Sample mailboxes\<close>

text \<open>Concrete collaborators, a user and servers, on which the properties below are
  evaluated.\<close>

definition ev0 :: env where
  "ev0 = \<lparr> analyze = (\<lambda>html text. \<lparr> a_email_type = ''plain_text'', a_should_preserve_layout = False,
                                        a_should_force_left_align = True, a_cleaned_html = None \<rparr>),
           now = 0, commit_ok = (\<lambda>db. True), nulls_first = True \<rparr>"

definition usr0 :: user where
  "usr0 = \<lparr> usr_id = 1, usr_email = ''ann@example.org'', decrypted_password = Some ''secret'',
            imap_host = Some ''imap.example.org'', imap_port = Some 993 \<rparr>"

definition mail0 :: "int \<Rightarrow> parsed_mail" where
  "mail0 k = \<lparr> p_subject = Some ''Hello'', p_from = [(''Bob'', ''bob@example.org'')],
               p_to = [(''Ann'', ''ann@example.org'')],
               p_message_id = Some (if k = 10 then ''<a@example.org>'' else if k = 11 then ''<b@example.org>''
                                    else if k = 12 then ''<c@example.org>'' else ''<d@example.org>''),
               p_date = Some 5, p_text_plain = [''Hi Ann''], p_text_html = [] \<rparr>"

text \<open>A server that accepts every command; the selected mailbox holds the UIDs 10, 11, 12.\<close>

definition srv_ok :: imap_server where
  "srv_ok = \<lparr> status = (\<lambda>h c. OK), uids = (\<lambda>h. [10, 11, 12]), message = (\<lambda>h k. Raw (Some (mail0 k))) \<rparr>"

text \<open>A server without any of the sent folders: only \<open>INBOX\<close> can be selected; it holds
  one message, UID 7.\<close>

definition srv_no_sent :: imap_server where
  "srv_no_sent = \<lparr> status = (\<lambda>h c. case c of Select f ro \<Rightarrow> if f = ''INBOX'' then OK else NO | _ \<Rightarrow> OK),
                   uids = (\<lambda>h. [7]), message = (\<lambda>h k. Raw (Some (mail0 k))) \<rparr>"

text \<open>A server that cannot be reached: every call raises.\<close>

definition srv_down :: imap_server where
  "srv_down = \<lparr> status = (\<lambda>h c. RAISE), uids = (\<lambda>h. []), message = (\<lambda>h k. NoData) \<rparr>"

text \<open>The row the sync stores for UID \<open>k\<close> of \<open>srv_ok\<close>, with key \<open>i\<close>, in folder \<open>fld\<close>.\<close>

definition row0 :: "nat \<Rightarrow> string \<Rightarrow> int \<Rightarrow> email" where
  "row0 i fld k = new_email ev0 i 1 fld k (mail0 k)"

section \<open>Vocabulary of the properties\<close>

text \<open>A row \<open>r\<close> is fresh for a table: it belongs to the user and the folder of the sync, it
  carries a UID that no row of the user has, in any folder, and, when it has a non-empty
  Message-ID, no row of the user has that Message-ID.\<close>

definition fresh :: "nat \<Rightarrow> string \<Rightarrow> email list \<Rightarrow> email \<Rightarrow> bool" where
  "fresh u fld db r =
     (user_id r = u \<and> folder r = fld
      \<and> (case imap_uid r of None \<Rightarrow> False | Some k \<Rightarrow> by_uid db u k = None)
      \<and> (truthy_str (message_id_header r) \<longrightarrow> by_msg_id db u (the (message_id_header r)) = None))"

text \<open>Rows appended one after the other, each fresh for the table it is appended to.\<close>

fun fresh_chain :: "nat \<Rightarrow> string \<Rightarrow> email list \<Rightarrow> email list \<Rightarrow> bool" where
  "fresh_chain u fld db [] = True"
| "fresh_chain u fld db (r # rs) = (fresh u fld db r \<and> fresh_chain u fld (db @ [r]) rs)"

text \<open>No two rows of one user carry the same non-empty Message-ID.\<close>

definition msgid_unique :: "email list \<Rightarrow> bool" where
  "msgid_unique db =
     distinct (map (\<lambda>e. (user_id e, message_id_header e)) (filter (\<lambda>e. truthy_str (message_id_header e)) db))"

text \<open>The rows of user \<open>u\<close> that carry the Message-ID \<open>m\<close>.\<close>

definition carriers :: "email list \<Rightarrow> nat \<Rightarrow> string \<Rightarrow> email list" where
  "carriers db u m = filter (\<lambda>e. user_id e = u \<and> message_id_header e = Some m) db"

text \<open>A sequence of sync calls, full or incremental, each with its own server, user and
  parameters, run one after the other on the table.\<close>

datatype sync_call = Full_sync imap_server user string int | New_sync imap_server user string

fun run_syncs :: "env \<Rightarrow> sync_call list \<Rightarrow> email list \<Rightarrow> email list" where
  "run_syncs ev [] db = db"
| "run_syncs ev (Full_sync srv usr fld limit # cs) db =
     run_syncs ev cs (fst (snd (sync_emails ev srv db usr fld limit)))"
| "run_syncs ev (New_sync srv usr fld # cs) db =
     run_syncs ev cs (fst (snd (sync_new_emails ev srv db usr fld)))"

section \<open>Properties\<close>

subsection \<open>Restoring a message that is not in the trash\<close>

text \<open>
  C9. A restore of a message whose folder is not \<open>trash\<close> is answered with an error before
  any connection to the server: the table is the one before the call and no IMAP command has
  been issued, whatever the server and the collaborators are.
\<close>

theorem restore_outside_trash_rejected:
  assumes "by_id db (usr_id usr) i = Some e" and "folder e \<noteq> ''trash''"
  shows "restore_email ev srv db usr i = (Error_not_in_trash, db, [])"
  using assms by (simp add: restore_email_def)

theorem restore_outside_trash_rejected_witness:
  "by_id [row0 1 ''inbox'' 7] (usr_id usr0) 1 = Some (row0 1 ''inbox'' 7)
   \<and> folder (row0 1 ''inbox'' 7) \<noteq> ''trash''
   \<and> restore_email ev0 srv_ok [row0 1 ''inbox'' 7] usr0 1 = (Error_not_in_trash, [row0 1 ''inbox'' 7], [])"
proof -
  have found: "by_id [row0 1 ''inbox'' 7] (usr_id usr0) 1 = Some (row0 1 ''inbox'' 7)"
    by code_simp
  have inbox: "folder (row0 1 ''inbox'' 7) \<noteq> ''trash''"
    by code_simp
  from restore_outside_trash_rejected [OF found inbox] found inbox show ?thesis
    by blast
qed

subsection \<open>What a sync loop adds to the table\<close>

lemma new_email_fields [simp]:
  "user_id (new_email ev i u fld k p) = u"
  "folder (new_email ev i u fld k p) = fld"
  "imap_uid (new_email ev i u fld k p) = Some k"
  "message_id_header (new_email ev i u fld k p) = msg_id_of p"
  "email_id (new_email ev i u fld k p) = i"
  by (simp_all add: new_email_def Let_def)

lemma ingest_Stored:
  assumes "ingest ev srv u fld db log k = Stored e"
  shows "\<exists>p. message srv log k = Raw (Some p) \<and> e = new_email ev (next_id db) u fld k p
            \<and> commit_ok ev (db @ [e])
            \<and> (truthy_str (msg_id_of p) \<longrightarrow> by_msg_id db u (the (msg_id_of p)) = None)"
  using assms
  by (auto simp: ingest_def Let_def truthy_str_def split: imap_status.splits fetch_data.splits option.splits if_splits)

lemma ingest_fresh:
  assumes "ingest ev srv u fld db log k = Stored e" and "by_uid db u k = None"
  shows "fresh u fld db e"
  using ingest_Stored [OF assms(1)] assms(2) by (auto simp: fresh_def)

lemma sync_loop_chain:
  "sync_loop ev srv u fld limit ks (db, log, cnt, fetched) = (b, (db', log', cnt', fetched'))
   \<Longrightarrow> \<exists>new. db' = db @ new \<and> fresh_chain u fld db new \<and> cnt' = cnt + length new"
proof (induction ks arbitrary: db log cnt fetched)
  case Nil
  then show ?case by simp
next
  case (Cons k ks)
  show ?case
  proof (cases "by_uid db u k = None")
    case False
    with Cons show ?thesis by simp
  next
    case True
    show ?thesis
    proof (cases "ingest ev srv u fld db log k")
      case Skipped
      with True Cons show ?thesis by simp
    next
      case Fell
      with True Cons show ?thesis by (auto split: if_splits)
    next
      case Raised
      with True Cons.prems show ?thesis by simp
    next
      case (Stored e)
      have fr: "fresh u fld db e" using ingest_fresh [OF Stored True] .
      show ?thesis
      proof (cases "fetched + 1 \<ge> limit")
        case True
        with Stored \<open>by_uid db u k = None\<close> Cons.prems fr show ?thesis
          by (intro exI [of _ "[e]"]) simp
      next
        case False
        with Stored \<open>by_uid db u k = None\<close> Cons.prems
        have "sync_loop ev srv u fld limit ks (db @ [e], log @ [UidFetch k], Suc cnt, fetched + 1) = (b, (db', log', cnt', fetched'))"
          by simp
        from Cons.IH [OF this] obtain new where
          "db' = (db @ [e]) @ new" "fresh_chain u fld (db @ [e]) new" "cnt' = Suc cnt + length new"
          by blast
        with fr show ?thesis by (intro exI [of _ "e # new"]) simp
      qed
    qed
  qed
qed

lemma sync_new_loop_chain:
  "sync_new_loop ev srv u fld cur ks (db, log, new0) = (b, (db', log', new'))
   \<Longrightarrow> \<exists>new. db' = db @ new \<and> new' = new0 @ new \<and> fresh_chain u fld db new
            \<and> (\<forall>r\<in>set new. \<exists>k. imap_uid r = Some k \<and> cur < k)"
proof (induction ks arbitrary: db log new0)
  case Nil
  then show ?case by simp
next
  case (Cons k ks)
  show ?case
  proof (cases "k \<le> cur \<or> by_uid db u k \<noteq> None")
    case True
    with Cons.prems have "sync_new_loop ev srv u fld cur ks (db, log, new0) = (b, (db', log', new'))"
      by (auto split: if_splits)
    from Cons.IH [OF this] show ?thesis .
  next
    case False
    then have k: "cur < k" and nu: "by_uid db u k = None" by auto
    show ?thesis
    proof (cases "ingest ev srv u fld db log k")
      case Skipped
      with k nu Cons show ?thesis by simp
    next
      case Fell
      with k nu Cons show ?thesis by simp
    next
      case Raised
      with k nu Cons.prems show ?thesis by simp
    next
      case (Stored e)
      have fr: "fresh u fld db e" using ingest_fresh [OF Stored nu] .
      have uid: "imap_uid e = Some k" using ingest_Stored [OF Stored] by auto
      from Stored k nu Cons.prems
      have "sync_new_loop ev srv u fld cur ks (db @ [e], log @ [UidFetch k], new0 @ [e]) = (b, (db', log', new'))"
        by simp
      from Cons.IH [OF this] obtain new where
        "db' = (db @ [e]) @ new" "new' = (new0 @ [e]) @ new" "fresh_chain u fld (db @ [e]) new"
        "\<forall>r\<in>set new. \<exists>k. imap_uid r = Some k \<and> cur < k"
        by blast
      with fr uid k show ?thesis by (intro exI [of _ "e # new"]) simp
    qed
  qed
qed

subsection \<open>What a sync call adds to the table\<close>

lemma by_uid_None: "by_uid db u k = None \<longleftrightarrow> (\<forall>e\<in>set db. \<not> (user_id e = u \<and> imap_uid e = Some k))"
  by (auto simp: by_uid_def find_None_iff)

lemma by_msg_id_None:
  "by_msg_id db u m = None \<longleftrightarrow> (\<forall>e\<in>set db. \<not> (user_id e = u \<and> message_id_header e = Some m))"
  by (auto simp: by_msg_id_def find_None_iff)

lemma sync_search_chain:
  assumes "sync_search ev srv db u fld limit log = (res, db', log')"
  shows "\<exists>new. db' = db @ new \<and> fresh_chain u fld db new \<and> (\<forall>n. res = Synced n \<longrightarrow> n = length new)"
proof (cases "status srv log (UidSearch Search_all)")
  case OK
  obtain b d l c f where loop:
    "sync_loop ev srv u fld limit (rev (slice_last limit (uids srv log))) (db, log @ [UidSearch Search_all], 0, 0) = (b, (d, l, c, f))"
    by (metis prod_cases5)
  from sync_loop_chain [OF loop] obtain new where
    new: "d = db @ new" "fresh_chain u fld db new" "c = 0 + length new" by blast
  from assms OK loop have "db' = d" and "\<forall>n. res = Synced n \<longrightarrow> n = c"
    by (auto simp: sync_search_def Let_def split: if_splits bool.splits)
  with new show ?thesis by auto
next
  case NO
  with assms have "db' = db" and "\<forall>n. res \<noteq> Synced n"
    by (auto simp: sync_search_def Let_def split: if_splits)
  then show ?thesis by (intro exI [of _ "[]"]) simp
next
  case RAISE
  with assms have "db' = db" and "\<forall>n. res \<noteq> Synced n"
    by (auto simp: sync_search_def Let_def split: if_splits)
  then show ?thesis by (intro exI [of _ "[]"]) simp
qed

lemma sync_emails_cases:
  assumes "sync_emails ev srv db usr fld limit = (res, db', log')"
  shows "(db' = db \<and> (\<forall>n. res \<noteq> Synced n))
       \<or> (\<exists>log. sync_search ev srv db (usr_id usr) fld limit log = (res, db', log'))"
  using assms
  by (auto simp: sync_emails_def Let_def split: if_splits prod.splits bool.splits option.splits)

lemma sync_emails_chain:
  assumes "sync_emails ev srv db usr fld limit = (res, db', log')"
  shows "\<exists>new. db' = db @ new \<and> fresh_chain (usr_id usr) fld db new \<and> (\<forall>n. res = Synced n \<longrightarrow> n = length new)"
  using sync_emails_cases [OF assms]
proof
  assume "db' = db \<and> (\<forall>n. res \<noteq> Synced n)"
  then show ?thesis by (intro exI [of _ "[]"]) simp
next
  assume "\<exists>log. sync_search ev srv db (usr_id usr) fld limit log = (res, db', log')"
  then obtain log where "sync_search ev srv db (usr_id usr) fld limit log = (res, db', log')" by blast
  from sync_search_chain [OF this] show ?thesis .
qed

lemma sync_new_search_chain:
  assumes "sync_new_search ev srv db u fld cursor log = (res, db', log')"
  shows "\<exists>new. db' = db @ new \<and> fresh_chain u fld db new
           \<and> (\<forall>es. res = Found es \<longrightarrow> es = new)
           \<and> (cursor = None \<longrightarrow> new = [])
           \<and> (\<forall>c. cursor = Some c \<longrightarrow> (\<forall>r\<in>set new. \<exists>k. imap_uid r = Some k \<and> c < k))"
proof (cases cursor)
  case None
  with assms have "db' = db" and "\<forall>es. res \<noteq> Found es" by (auto simp: sync_new_search_def)
  then show ?thesis by (intro exI [of _ "[]"]) simp
next
  case (Some c)
  show ?thesis
  proof (cases "status srv log (UidSearch (search_query c))")
    case OK
    obtain b d l n where loop:
      "sync_new_loop ev srv u fld c (rev (slice_last 20 (uids srv log))) (db, log @ [UidSearch (search_query c)], []) = (b, (d, l, n))"
      by (metis prod_cases4)
    from sync_new_loop_chain [OF loop] obtain new where
      new: "d = db @ new" "n = [] @ new" "fresh_chain u fld db new"
           "\<forall>r\<in>set new. \<exists>k. imap_uid r = Some k \<and> c < k" by blast
    from assms Some OK loop have "db' = d" and "\<forall>es. res = Found es \<longrightarrow> es = n"
      by (auto simp: sync_new_search_def Let_def split: if_splits bool.splits)
    with new Some show ?thesis by auto
  next
    case NO
    with assms Some have "db' = db" and "\<forall>es. res \<noteq> Found es"
      by (auto simp: sync_new_search_def Let_def split: if_splits)
    then show ?thesis by (intro exI [of _ "[]"]) simp
  next
    case RAISE
    with assms Some have "db' = db" and "\<forall>es. res \<noteq> Found es"
      by (auto simp: sync_new_search_def Let_def split: if_splits)
    then show ?thesis by (intro exI [of _ "[]"]) simp
  qed
qed

lemma sync_new_emails_cases:
  assumes "sync_new_emails ev srv db usr fld = (res, db', log')"
  shows "(db' = db \<and> (\<forall>es. res \<noteq> Found es))
       \<or> (\<exists>log. sync_new_search ev srv db (usr_id usr) fld (last_uid ev db (usr_id usr) fld) log = (res, db', log'))"
  using assms
  by (auto simp: sync_new_emails_def Let_def split: if_splits prod.splits bool.splits option.splits)

lemma sync_new_emails_chain:
  assumes "sync_new_emails ev srv db usr fld = (res, db', log')"
  shows "\<exists>new. db' = db @ new \<and> fresh_chain (usr_id usr) fld db new
           \<and> (\<forall>es. res = Found es \<longrightarrow> es = new)
           \<and> (last_uid ev db (usr_id usr) fld = None \<longrightarrow> new = [])
           \<and> (\<forall>c. last_uid ev db (usr_id usr) fld = Some c \<longrightarrow> (\<forall>r\<in>set new. \<exists>k. imap_uid r = Some k \<and> c < k))"
  using sync_new_emails_cases [OF assms]
proof
  assume "db' = db \<and> (\<forall>es. res \<noteq> Found es)"
  then show ?thesis by (intro exI [of _ "[]"]) simp
next
  assume "\<exists>log. sync_new_search ev srv db (usr_id usr) fld (last_uid ev db (usr_id usr) fld) log = (res, db', log')"
  then obtain log where
    "sync_new_search ev srv db (usr_id usr) fld (last_uid ev db (usr_id usr) fld) log = (res, db', log')" by blast
  from sync_new_search_chain [OF this] show ?thesis .
qed

subsection \<open>Message-IDs and moved messages\<close>

lemma fresh_msgid_unique:
  assumes "msgid_unique db" and "fresh u fld db r"
  shows "msgid_unique (db @ [r])"
proof (cases "truthy_str (message_id_header r)")
  case False
  with assms(1) show ?thesis by (simp add: msgid_unique_def)
next
  case True
  then obtain m where m: "message_id_header r = Some m" by (auto simp: truthy_str_def split: option.splits)
  from assms(2) True m have "by_msg_id db u m = None" and u: "user_id r = u" by (auto simp: fresh_def)
  then have "\<forall>e\<in>set db. \<not> (user_id e = u \<and> message_id_header e = Some m)"
    by (simp add: by_msg_id_None)
  with assms(1) True m u show ?thesis by (auto simp: msgid_unique_def)
qed

lemma chain_msgid_unique:
  "fresh_chain u fld db new \<Longrightarrow> msgid_unique db \<Longrightarrow> msgid_unique (db @ new)"
proof (induction new arbitrary: db)
  case Nil
  then show ?case by simp
next
  case (Cons r rs)
  from Cons.prems have "msgid_unique (db @ [r])" by (auto intro: fresh_msgid_unique)
  with Cons.IH [of "db @ [r]"] Cons.prems show ?case by simp
qed

lemma msgid_unique_carriers:
  "msgid_unique db \<Longrightarrow> m \<noteq> [] \<Longrightarrow> length (carriers db u m) \<le> 1"
proof (induction db)
  case Nil
  then show ?case by (simp add: carriers_def)
next
  case (Cons x xs)
  from Cons.prems(1) have xs: "msgid_unique xs" by (auto simp: msgid_unique_def split: if_splits)
  show ?case
  proof (cases "user_id x = u \<and> message_id_header x = Some m")
    case False
    with Cons.IH [OF xs Cons.prems(2)] show ?thesis by (auto simp: carriers_def)
  next
    case True
    have "\<not> (user_id e = u \<and> message_id_header e = Some m)" if "e \<in> set xs" for e
    proof
      assume e: "user_id e = u \<and> message_id_header e = Some m"
      with Cons.prems(2) that
      have "(u, Some m) \<in> set (map (\<lambda>e. (user_id e, message_id_header e))
                                   (filter (\<lambda>e. truthy_str (message_id_header e)) xs))"
        by (force simp: truthy_str_def)
      with Cons.prems True show False by (simp add: msgid_unique_def truthy_str_def)
    qed
    then have "\<forall>e\<in>set xs. \<not> (user_id e = u \<and> message_id_header e = Some m)" by blast
    then have "carriers xs u m = []" by (auto simp: carriers_def filter_empty_conv)
    with True show ?thesis by (simp add: carriers_def)
  qed
qed

lemma sync_emails_unique:
  assumes "msgid_unique db"
  shows "msgid_unique (fst (snd (sync_emails ev srv db usr fld limit)))"
proof -
  obtain res db' log' where run: "sync_emails ev srv db usr fld limit = (res, db', log')"
    by (metis prod_cases3)
  from sync_emails_chain [OF run] obtain new where "db' = db @ new" "fresh_chain (usr_id usr) fld db new"
    by blast
  with assms run show ?thesis by (simp add: chain_msgid_unique)
qed

lemma sync_new_emails_unique:
  assumes "msgid_unique db"
  shows "msgid_unique (fst (snd (sync_new_emails ev srv db usr fld)))"
proof -
  obtain res db' log' where run: "sync_new_emails ev srv db usr fld = (res, db', log')"
    by (metis prod_cases3)
  from sync_new_emails_chain [OF run] obtain new where "db' = db @ new" "fresh_chain (usr_id usr) fld db new"
    by blast
  with assms run show ?thesis by (simp add: chain_msgid_unique)
qed

lemma run_syncs_unique: "msgid_unique db \<Longrightarrow> msgid_unique (run_syncs ev calls db)"
proof (induction calls arbitrary: db)
  case Nil
  then show ?case by simp
next
  case (Cons c cs)
  then show ?case by (cases c) (simp_all add: sync_emails_unique sync_new_emails_unique)
qed

lemma ingest_known_msg_id:
  assumes "by_msg_id db u m \<noteq> None" and "m \<noteq> []"
    and "message srv log k = Raw (Some p)" and "msg_id_of p = Some m"
  shows "ingest ev srv u fld db log k = Skipped \<or> ingest ev srv u fld db log k = Raised"
  using assms by (auto simp: ingest_def split: imap_status.splits)

text \<open>
  C2. Whatever sync calls are run, full or incremental, with whatever servers, users,
  folders and limits, a table in which no non-empty Message-ID is carried by two rows of one
  user stays such a table: after the calls, at most one row of user \<open>u\<close> carries the
  non-empty Message-ID \<open>m\<close>. The mechanism is the check before the insert: a message
  whose Message-ID a row of the user already has is never stored.
\<close>

theorem message_id_carried_once:
  assumes "msgid_unique db" and "m \<noteq> []"
  shows "length (carriers (run_syncs ev calls db) u m) \<le> 1
       \<and> (by_msg_id db u m \<noteq> None \<and> message srv log k = Raw (Some p) \<and> msg_id_of p = Some m
            \<longrightarrow> (\<forall>e. ingest ev srv u fld db log k \<noteq> Stored e))"
proof
  from assms show "length (carriers (run_syncs ev calls db) u m) \<le> 1"
    by (intro msgid_unique_carriers run_syncs_unique)
next
  show "by_msg_id db u m \<noteq> None \<and> message srv log k = Raw (Some p) \<and> msg_id_of p = Some m
          \<longrightarrow> (\<forall>e. ingest ev srv u fld db log k \<noteq> Stored e)"
    using ingest_known_msg_id [OF _ assms(2), of db u srv log k p ev fld] by auto
qed

theorem message_id_carried_once_witness:
  "msgid_unique [row0 1 ''trash'' 12] \<and> ''c@example.org'' \<noteq> []
   \<and> length (carriers (run_syncs ev0 [Full_sync srv_ok usr0 ''inbox'' 2, New_sync srv_ok usr0 ''inbox'',
                                       Full_sync srv_ok usr0 ''trash'' 100] [row0 1 ''trash'' 12])
                        1 ''c@example.org'') \<le> 1
   \<and> by_msg_id [row0 1 ''trash'' 12] 1 ''c@example.org'' \<noteq> None
   \<and> message srv_ok [] 12 = Raw (Some (mail0 12)) \<and> msg_id_of (mail0 12) = Some ''c@example.org''
   \<and> (\<forall>e. ingest ev0 srv_ok 1 ''inbox'' [row0 1 ''trash'' 12] [] 12 \<noteq> Stored e)"
proof -
  have a: "msgid_unique [row0 1 ''trash'' 12]" by code_simp
  have b: "''c@example.org'' \<noteq> []" by simp
  have c: "by_msg_id [row0 1 ''trash'' 12] 1 ''c@example.org'' \<noteq> None" by code_simp
  have d: "message srv_ok [] 12 = Raw (Some (mail0 12))" by (simp add: srv_ok_def)
  have e: "msg_id_of (mail0 12) = Some ''c@example.org''" by code_simp
  from message_id_carried_once [OF a b, of ev0 _ 1 srv_ok "[]" 12 "mail0 12" "''inbox''"] a b c d e
  show ?thesis by blast
qed

lemma chain_avoids:
  "fresh_chain u fld db new \<Longrightarrow> e0 \<in> set db \<Longrightarrow> user_id e0 = u \<Longrightarrow>
   \<forall>r\<in>set new. folder r = fld \<and> user_id r = u \<and> imap_uid r \<noteq> imap_uid e0
      \<and> (truthy_str (message_id_header e0) \<longrightarrow> message_id_header r \<noteq> message_id_header e0)"
proof (induction new arbitrary: db)
  case Nil
  then show ?case by simp
next
  case (Cons r rs)
  from Cons.prems have fr: "fresh u fld db r" and ch: "fresh_chain u fld (db @ [r]) rs" by simp_all
  from fr Cons.prems(2,3) have "imap_uid r \<noteq> imap_uid e0"
    by (auto simp: fresh_def by_uid_None split: option.splits)
  moreover from fr Cons.prems(2,3)
  have "truthy_str (message_id_header e0) \<longrightarrow> message_id_header r \<noteq> message_id_header e0"
    by (auto simp: fresh_def by_msg_id_None truthy_str_def split: option.splits)
  moreover from fr have "folder r = fld" "user_id r = u" by (simp_all add: fresh_def)
  moreover from Cons.IH [OF ch] Cons.prems(2,3)
  have "\<forall>r\<in>set rs. folder r = fld \<and> user_id r = u \<and> imap_uid r \<noteq> imap_uid e0
      \<and> (truthy_str (message_id_header e0) \<longrightarrow> message_id_header r \<noteq> message_id_header e0)"
    by simp
  ultimately show ?case by simp
qed

text \<open>
  C3. A row of the user that is in \<open>trash\<close> or \<open>archive\<close> survives a sync of \<open>inbox\<close>,
  full or incremental, unchanged: the table after the sync is the table before it followed
  by the new rows, and no new row has the UID of that row, or its Message-ID when the row
  has a non-empty one. (An empty Message-ID is never looked up by the code.)
\<close>

theorem trashed_not_resurrected:
  assumes "e0 \<in> set db" and "user_id e0 = usr_id usr"
    and "folder e0 = ''trash'' \<or> folder e0 = ''archive''"
    and "run = sync_emails ev srv db usr ''inbox'' limit \<or> run = sync_new_emails ev srv db usr ''inbox''"
  shows "\<exists>new. fst (snd run) = db @ new
           \<and> (\<forall>r\<in>set new. folder r = ''inbox'' \<and> user_id r = usr_id usr \<and> imap_uid r \<noteq> imap_uid e0
                 \<and> (truthy_str (message_id_header e0) \<longrightarrow> message_id_header r \<noteq> message_id_header e0))"
proof -
  obtain res db' log' where run: "run = (res, db', log')" by (metis prod_cases3)
  from assms(4) run sync_emails_chain [of ev srv db usr "''inbox''" limit res db' log']
    sync_new_emails_chain [of ev srv db usr "''inbox''" res db' log']
  obtain new where new: "db' = db @ new" "fresh_chain (usr_id usr) ''inbox'' db new" by auto
  from chain_avoids [OF new(2) assms(1,2)] new(1) run show ?thesis by auto
qed

theorem trashed_not_resurrected_witness:
  "row0 1 ''trash'' 12 \<in> set [row0 1 ''trash'' 12] \<and> user_id (row0 1 ''trash'' 12) = usr_id usr0
   \<and> (folder (row0 1 ''trash'' 12) = ''trash'' \<or> folder (row0 1 ''trash'' 12) = ''archive'')
   \<and> (\<exists>new. fst (snd (sync_emails ev0 srv_ok [row0 1 ''trash'' 12] usr0 ''inbox'' 100)) = [row0 1 ''trash'' 12] @ new
         \<and> (\<forall>r\<in>set new. folder r = ''inbox'' \<and> user_id r = usr_id usr0
               \<and> imap_uid r \<noteq> imap_uid (row0 1 ''trash'' 12)
               \<and> (truthy_str (message_id_header (row0 1 ''trash'' 12))
                    \<longrightarrow> message_id_header r \<noteq> message_id_header (row0 1 ''trash'' 12))))"
proof -
  have a: "row0 1 ''trash'' 12 \<in> set [row0 1 ''trash'' 12]" by simp
  have b: "user_id (row0 1 ''trash'' 12) = usr_id usr0" by code_simp
  have c: "folder (row0 1 ''trash'' 12) = ''trash'' \<or> folder (row0 1 ''trash'' 12) = ''archive''" by code_simp
  from trashed_not_resurrected [OF a b c disjI1 [OF refl], of ev0 srv_ok 100] a b c show ?thesis by blast
qed

subsection \<open>The limit of a full sync\<close>

text \<open>The mailbox \<open>10, 11, 12\<close> synced into an empty table with \<open>limit = 2\<close>: UID 12 is
  fetched and stored first, UID 11 second, both in \<open>inbox\<close>; UID 10 is not fetched. A second
  run stores nothing.\<close>

lemma full_sync_scenario_limit_two:
  "sync_emails ev0 srv_ok [] usr0 ''inbox'' 2
     = (Synced 2, [row0 1 ''inbox'' 12, row0 2 ''inbox'' 11],
        [Connect, Login, Select ''INBOX'' True, UidSearch Search_all, UidFetch 12, UidFetch 11, Logout])"
  by code_simp

lemma full_sync_rerun_limit_two:
  "sync_emails ev0 srv_ok [row0 1 ''inbox'' 12, row0 2 ''inbox'' 11] usr0 ''inbox'' 2
     = (Synced 0, [row0 1 ''inbox'' 12, row0 2 ''inbox'' 11],
        [Connect, Login, Select ''INBOX'' True, UidSearch Search_all, Logout])"
  by code_simp

text \<open>
  C5. A full sync is to process the most recent \<open>limit\<close> UIDs, newest first. With
  \<open>limit = 0\<close> the code does otherwise: \<open>email_uids_bytes[-0:]\<close> is the whole list, and the
  test \<open>fetched_count >= limit\<close> is reached only after a message has been stored. On the
  mailbox \<open>10, 11, 12\<close> and an empty table, one message, UID 12, is fetched and stored, where
  a limit of zero asks for none.
\<close>

theorem full_sync_limit_zero_stores_one:
  "sync_emails ev0 srv_ok [] usr0 ''inbox'' 0
     = (Synced 1, [row0 1 ''inbox'' 12],
        [Connect, Login, Select ''INBOX'' True, UidSearch Search_all, UidFetch 12, Logout])"
  by code_simp

text \<open>
  C1. Running the full sync again on the same mailbox, for the same user, folder and limit,
  is to store nothing new. With \<open>limit = 0\<close> the second run, on the table the first run
  left, skips UID 12, which is stored, and then fetches and stores UID 11: one new row.
\<close>

theorem full_sync_rerun_limit_zero_stores_another:
  "sync_emails ev0 srv_ok (fst (snd (sync_emails ev0 srv_ok [] usr0 ''inbox'' 0))) usr0 ''inbox'' 0
     = (Synced 1, [row0 1 ''inbox'' 12, row0 2 ''inbox'' 11],
        [Connect, Login, Select ''INBOX'' True, UidSearch Search_all, UidFetch 11, Logout])"
  by code_simp

subsection \<open>Deleting a message that is in the trash\<close>

text \<open>The row of UID 7 is in \<open>trash\<close>; after a delete with \<open>permanent = false\<close> the table is
  empty.\<close>

theorem trashed_delete_leaves_no_row:
  "delete_email ev0 srv_ok [row0 1 ''trash'' 7] usr0 1 False
     = (Success, [], [Connect, Login, Select ''Trash'' False, UidStore 7, Expunge, Logout])"
  by code_simp

lemma open_session_log:
  "open_session srv = (b, log) \<Longrightarrow> log = [Connect] \<or> log = [Connect, Login]"
  by (auto simp: open_session_def split: if_splits)

lemma open_session_True:
  "open_session srv = (True, log) \<Longrightarrow> log = [Connect, Login]"
  by (auto simp: open_session_def split: if_splits)

lemma run_cmds_log:
  "run_cmds srv cs log = (b, log') \<Longrightarrow> \<exists>n. log' = log @ take n cs"
proof (induction cs arbitrary: log)
  case Nil
  then show ?case by simp
next
  case (Cons c cs)
  show ?case
  proof (cases "status srv log c = RAISE")
    case True
    with Cons.prems have "log' = log @ take 1 (c # cs)" by simp
    then show ?thesis by blast
  next
    case False
    with Cons.prems have "run_cmds srv cs (log @ [c]) = (b, log')" by simp
    from Cons.IH [OF this] obtain n where "log' = (log @ [c]) @ take n cs" by blast
    then have "log' = log @ take (Suc n) (c # cs)" by simp
    then show ?thesis by blast
  qed
qed

lemma run_cmds_all:
  "\<forall>h c. status srv h c \<noteq> RAISE \<Longrightarrow> run_cmds srv cs log = (True, log @ cs)"
  by (induction cs arbitrary: log) auto

lemma select_current_log:
  "select_current srv f log = (b, cur, log') \<Longrightarrow>
     log' = log @ [Select f False] \<or> log' = log @ [Select f False, Select ''INBOX'' False]
     \<or> log' = log @ [Select f False, Select ''INBOX'' False, Select ''INBOX'' False]"
  by (auto simp: select_current_def Let_def split: imap_status.splits if_splits)

lemma select_current_quiet:
  "\<forall>h c. status srv h c \<noteq> RAISE \<Longrightarrow>
   select_current srv f log =
     (True, (if status srv log (Select f False) = OK then f else ''INBOX''),
      log @ [Select f False] @ (if status srv log (Select f False) = OK then [] else [Select ''INBOX'' False]))"
  by (auto simp: select_current_def Let_def split: imap_status.splits)

lemma delete_remote_trash:
  assumes "folder e = ''trash''" and "delete_remote srv e False = (raised, ok, c, log)"
  shows "(c = Removed \<or> (c = Unchanged \<and> raised)) \<and> (\<forall>k t. UidCopy k t \<notin> set log)"
proof -
  obtain b0 log0 where o: "open_session srv = (b0, log0)" by (cases "open_session srv")
  from open_session_log [OF o] have l0: "\<forall>k t. UidCopy k t \<notin> set log0" by auto
  show ?thesis
  proof (cases b0)
    case False
    with assms o show ?thesis using l0 by (simp add: delete_remote_def)
  next
    case True
    obtain b1 cur log1 where s: "select_current srv ''Trash'' log0 = (b1, cur, log1)"
      by (cases "select_current srv ''Trash'' log0") auto
    from select_current_log [OF s] l0 have l1: "\<forall>k t. UidCopy k t \<notin> set log1" by auto
    have loc: "locate_folder srv e log0 = (b1, cur, log1)"
      using assms(1) s by (simp add: locate_folder_def folder_mapping_mut_def)
    show ?thesis
    proof (cases b1)
      case False
      with assms o True loc l1 show ?thesis by (simp add: delete_remote_def)
    next
      case b1: True
      show ?thesis
      proof (cases "truthy_int (imap_uid e)")
        case False
        with assms o True loc b1 l1 show ?thesis
          by (auto simp: delete_remote_def logout_after_def local_delete_def)
      next
        case u: True
        obtain b2 log2 where r: "run_cmds srv [UidStore (the (imap_uid e)), Expunge] log1 = (b2, log2)"
          by (cases "run_cmds srv [UidStore (the (imap_uid e)), Expunge] log1")
        from run_cmds_log [OF r] obtain n where "log2 = log1 @ take n [UidStore (the (imap_uid e)), Expunge]" by blast
        then have "set log2 \<subseteq> set log1 \<union> {UidStore (the (imap_uid e)), Expunge}"
          using set_take_subset [of n "[UidStore (the (imap_uid e)), Expunge]"] by auto
        with l1 have l2: "\<forall>k t. UidCopy k t \<notin> set log2" by auto
        from assms o True loc b1 u r l2 show ?thesis
          by (cases b2) (auto simp: delete_remote_def logout_after_def Let_def)
      qed
    qed
  qed
qed

lemma delete_remote_trash_in_place:
  assumes "folder e = ''trash''" and "truthy_int (imap_uid e)" and "imap_uid e = Some k"
    and "status srv [] Connect \<noteq> RAISE" and "status srv [Connect] Login \<noteq> RAISE"
    and "status srv [Connect, Login] (Select ''Trash'' False) = OK"
    and "status srv [Connect, Login, Select ''Trash'' False] (UidStore k) \<noteq> RAISE"
    and "status srv [Connect, Login, Select ''Trash'' False, UidStore k] Expunge \<noteq> RAISE"
  shows "\<exists>raised. delete_remote srv e False =
           (raised, True, Removed, [Connect, Login, Select ''Trash'' False, UidStore k, Expunge, Logout])"
proof -
  have o: "open_session srv = (True, [Connect, Login])" using assms(4,5) by (simp add: open_session_def)
  have loc: "locate_folder srv e [Connect, Login] = (True, ''Trash'', [Connect, Login, Select ''Trash'' False])"
    using assms(1,6) by (simp add: locate_folder_def folder_mapping_mut_def select_current_def)
  have r: "run_cmds srv [UidStore k, Expunge] [Connect, Login, Select ''Trash'' False]
             = (True, [Connect, Login, Select ''Trash'' False, UidStore k, Expunge])"
    using assms(7,8) by simp
  show ?thesis
    using assms(1,2,3,7,8) by (simp add: delete_remote_def o loc logout_after_def)
qed

text \<open>
  C7. A delete with \<open>permanent = false\<close> of a message of the user whose local folder is
  \<open>trash\<close> removes the row from the table, provided the commit succeeds (the route deletes
  for good what is already in the trash); the row does not stay in \<open>trash\<close>. The answer is a
  success or a warning, and no copy is sent to the server, whatever the account and the
  server. When the account has its IMAP settings and password, the row has a non-zero UID
  \<open>k\<close>, the connection and the login do not raise, the server accepts the selection of
  \<open>Trash\<close>, and neither the flag nor the expunge raises, the message is flagged and expunged
  in place: the commands are exactly the connection, the login, the selection of \<open>Trash\<close>,
  the flag on \<open>k\<close>, the expunge and the logout, and the answer is a success.
\<close>

theorem trashed_delete_removes_row:
  assumes "by_id db (usr_id usr) i = Some e" and "folder e = ''trash''"
    and "commit_ok ev (delete_row i db)"
  shows "\<exists>st log. delete_email ev srv db usr i False = (st, delete_row i db, log)
           \<and> (st = Success \<or> st = Warning)
           \<and> (\<forall>k t. UidCopy k t \<notin> set log)
           \<and> (\<forall>k. imap_available usr \<and> truthy_int (imap_uid e) \<and> imap_uid e = Some k
                   \<and> status srv [] Connect \<noteq> RAISE \<and> status srv [Connect] Login \<noteq> RAISE
                   \<and> status srv [Connect, Login] (Select ''Trash'' False) = OK
                   \<and> status srv [Connect, Login, Select ''Trash'' False] (UidStore k) \<noteq> RAISE
                   \<and> status srv [Connect, Login, Select ''Trash'' False, UidStore k] Expunge \<noteq> RAISE
                 \<longrightarrow> st = Success
                     \<and> log = [Connect, Login, Select ''Trash'' False, UidStore k, Expunge, Logout])"
proof (cases "imap_available usr")
  case False
  with assms show ?thesis
    by (simp add: delete_email_def commit_def local_delete_def apply_local_def)
next
  case av: True
  obtain raised ok c log where d: "delete_remote srv e False = (raised, ok, c, log)"
    by (cases "delete_remote srv e False") auto
  from delete_remote_trash [OF assms(2) d]
  have c: "c = Removed \<or> (c = Unchanged \<and> raised)" and nc: "\<forall>k t. UidCopy k t \<notin> set log" by auto
  from c assms(2) have c': "(if raised then local_delete False (case c of To_folder f \<Rightarrow> f | _ \<Rightarrow> folder e) else c) = Removed"
    by (auto simp: local_delete_def)
  have run: "delete_email ev srv db usr i False = (if ok then Success else Warning, delete_row i db, log)"
    using assms av d c' by (simp add: delete_email_def commit_def apply_local_def Let_def)
  have place: "\<forall>k. imap_available usr \<and> truthy_int (imap_uid e) \<and> imap_uid e = Some k
                   \<and> status srv [] Connect \<noteq> RAISE \<and> status srv [Connect] Login \<noteq> RAISE
                   \<and> status srv [Connect, Login] (Select ''Trash'' False) = OK
                   \<and> status srv [Connect, Login, Select ''Trash'' False] (UidStore k) \<noteq> RAISE
                   \<and> status srv [Connect, Login, Select ''Trash'' False, UidStore k] Expunge \<noteq> RAISE
                 \<longrightarrow> ok \<and> log = [Connect, Login, Select ''Trash'' False, UidStore k, Expunge, Logout]"
  proof (intro allI impI)
    fix k
    assume h: "imap_available usr \<and> truthy_int (imap_uid e) \<and> imap_uid e = Some k
                   \<and> status srv [] Connect \<noteq> RAISE \<and> status srv [Connect] Login \<noteq> RAISE
                   \<and> status srv [Connect, Login] (Select ''Trash'' False) = OK
                   \<and> status srv [Connect, Login, Select ''Trash'' False] (UidStore k) \<noteq> RAISE
                   \<and> status srv [Connect, Login, Select ''Trash'' False, UidStore k] Expunge \<noteq> RAISE"
    then have "\<exists>raised. delete_remote srv e False =
           (raised, True, Removed, [Connect, Login, Select ''Trash'' False, UidStore k, Expunge, Logout])"
      using delete_remote_trash_in_place [OF assms(2), of k srv] by blast
    with d show "ok \<and> log = [Connect, Login, Select ''Trash'' False, UidStore k, Expunge, Logout]" by auto
  qed
  from run nc place show ?thesis by auto
qed

theorem trashed_delete_removes_row_witness:
  "by_id [row0 1 ''trash'' 7, row0 2 ''inbox'' 8] (usr_id usr0) 1 = Some (row0 1 ''trash'' 7)
   \<and> folder (row0 1 ''trash'' 7) = ''trash''
   \<and> commit_ok ev0 (delete_row 1 [row0 1 ''trash'' 7, row0 2 ''inbox'' 8])
   \<and> imap_available usr0 \<and> truthy_int (imap_uid (row0 1 ''trash'' 7))
   \<and> imap_uid (row0 1 ''trash'' 7) = Some 7
   \<and> status srv_ok [] Connect \<noteq> RAISE \<and> status srv_ok [Connect] Login \<noteq> RAISE
   \<and> status srv_ok [Connect, Login] (Select ''Trash'' False) = OK
   \<and> status srv_ok [Connect, Login, Select ''Trash'' False] (UidStore 7) \<noteq> RAISE
   \<and> status srv_ok [Connect, Login, Select ''Trash'' False, UidStore 7] Expunge \<noteq> RAISE
   \<and> delete_email ev0 srv_ok [row0 1 ''trash'' 7, row0 2 ''inbox'' 8] usr0 1 False
       = (Success, [row0 2 ''inbox'' 8], [Connect, Login, Select ''Trash'' False, UidStore 7, Expunge, Logout])"
proof -
  have a: "by_id [row0 1 ''trash'' 7, row0 2 ''inbox'' 8] (usr_id usr0) 1 = Some (row0 1 ''trash'' 7)" by code_simp
  have b: "folder (row0 1 ''trash'' 7) = ''trash''" by code_simp
  have c: "commit_ok ev0 (delete_row 1 [row0 1 ''trash'' 7, row0 2 ''inbox'' 8])" by code_simp
  have d: "imap_available usr0" by code_simp
  have e: "truthy_int (imap_uid (row0 1 ''trash'' 7))" by code_simp
  have f: "\<And>h c. status srv_ok h c = OK" by (simp add: srv_ok_def)
  have g: "delete_row 1 [row0 1 ''trash'' 7, row0 2 ''inbox'' 8] = [row0 2 ''inbox'' 8]" by code_simp
  have h: "imap_uid (row0 1 ''trash'' 7) = Some 7" by code_simp
  from trashed_delete_removes_row [OF a b c, of srv_ok] d e f g h
  have "delete_email ev0 srv_ok [row0 1 ''trash'' 7, row0 2 ''inbox'' 8] usr0 1 False
       = (Success, [row0 2 ''inbox'' 8], [Connect, Login, Select ''Trash'' False, UidStore 7, Expunge, Logout])"
    by auto
  with a b c d e f h show ?thesis by simp
qed

subsection \<open>The sent folder of a full sync\<close>


lemma inbox_sync_same_server:
  "sync_emails ev0 srv_no_sent [] usr0 ''inbox'' 100
     = (Synced 1, [row0 1 ''inbox'' 7],
        [Connect, Login, Select ''INBOX'' True, UidSearch Search_all, UidFetch 7, Logout])"
  by code_simp





end
